theory Spec2Isabelle
  imports Complex_Main
begin

section \<open>Strings\<close>

text \<open>
  A JavaScript string is modelled as a \<^typ>\<open>string\<close>: the list of the bytes of its UTF-8
  encoding, which is what the console and the file system receive. The script's own
  literals outside ASCII (the pictographs that open its messages) are written as
  their UTF-8 bytes. The character class of letters and digits is that of ASCII.
  Lower case is that of the ASCII letters and of the Kelvin sign (U+212A, the
  bytes E2 84 AA), whose lower case is the letter \<^verbatim>\<open>k\<close>: it is the one character
  outside ASCII that \<^verbatim>\<open>toLowerCase\<close> turns into ASCII text. Other letters outside
  ASCII are kept as they are, where JavaScript gives other text outside ASCII; so
  the model and JavaScript agree on whether the lower case of a text is a given
  ASCII text, which is all the script does with it before the platform is known
  to be \<^verbatim>\<open>desktop\<close> or \<^verbatim>\<open>mobile\<close>.
\<close>

definition startsWith :: "string \<Rightarrow> string \<Rightarrow> bool" where
  \<comment> \<open>\<^verbatim>\<open>s.startsWith(p)\<close>\<close>
  "startsWith s p = (take (length p) s = p)"

fun split_str :: "char \<Rightarrow> string \<Rightarrow> string list" where
  \<comment> \<open>\<^verbatim>\<open>s.split(c)\<close> for a one-character separator: never the empty list\<close>
  "split_str c [] = [[]]"
| "split_str c (x # xs) =
     (if x = c then [] # split_str c xs
      else (case split_str c xs of
              [] \<Rightarrow> [[x]]
            | w # ws \<Rightarrow> (x # w) # ws))"

definition index_js :: "'a list \<Rightarrow> nat \<Rightarrow> 'a option" where
  \<comment> \<open>\<^verbatim>\<open>xs[i]\<close>: \<^verbatim>\<open>undefined\<close> (here \<open>None\<close>) out of range\<close>
  "index_js xs i = (if i < length xs then Some (xs ! i) else None)"

definition upperCase :: string where
  "upperCase = ''ABCDEFGHIJKLMNOPQRSTUVWXYZ''"

definition lowerCase :: string where
  "lowerCase = ''abcdefghijklmnopqrstuvwxyz''"

definition digits :: string where
  "digits = ''0123456789''"

definition toLowerChar :: "char \<Rightarrow> char" where
  "toLowerChar c = (case map_of (zip upperCase lowerCase) c of None \<Rightarrow> c | Some l \<Rightarrow> l)"

definition kelvin_sign :: string where
  "kelvin_sign = [CHR 0xE2, CHR 0x84, CHR 0xAA]"

fun toLowerCase :: "string \<Rightarrow> string" where
  \<comment> \<open>\<^verbatim>\<open>s.toLowerCase()\<close>\<close>
  "toLowerCase (a # b # c # rest) =
     (if [a, b, c] = kelvin_sign then CHR ''k'' # toLowerCase rest
      else toLowerChar a # toLowerCase (b # c # rest))"
| "toLowerCase (a # rest) = toLowerChar a # toLowerCase rest"
| "toLowerCase [] = []"

definition isAlnum :: "char \<Rightarrow> bool" where
  \<comment> \<open>the character class \<^verbatim>\<open>[a-zA-Z0-9]\<close>\<close>
  "isAlnum c = (c \<in> set (lowerCase @ upperCase @ digits))"

definition falsy :: "string option \<Rightarrow> bool" where
  \<comment> \<open>\<^verbatim>\<open>!url\<close> for a value that is \<^verbatim>\<open>null\<close>, \<^verbatim>\<open>undefined\<close> (both \<open>None\<close>) or a string\<close>
  "falsy v = (case v of None \<Rightarrow> True | Some s \<Rightarrow> s = [])"

section \<open>Argument parsing\<close>

datatype js_error = TypeError

text \<open>
  The loop of \<^verbatim>\<open>parseArgs\<close> runs \<^verbatim>\<open>i\<close> over the arguments in order and reads
  \<^verbatim>\<open>args[i]\<close> and \<^verbatim>\<open>args[i + 1]\<close> only. \<open>parseLoop\<close> is that loop on the arguments from
  index \<^verbatim>\<open>i\<close> on: \<open>a\<close> is \<^verbatim>\<open>args[i]\<close>, \<open>rest\<close> holds \<^verbatim>\<open>args[i + 1]\<close> and what follows, and
  \<^verbatim>\<open>i + 1 < args.length\<close> says that \<open>rest\<close> is not empty. The index moves by one
  in every branch, so the value of a flag is read again as an argument of its own.
  \<^verbatim>\<open>split("=")[1]\<close> is \<^verbatim>\<open>undefined\<close> when the text has no \<^verbatim>\<open>=\<close>; calling
  \<^verbatim>\<open>toLowerCase\<close> on it would throw a \<^verbatim>\<open>TypeError\<close>.
\<close>

fun parseLoop :: "string list \<Rightarrow> string option \<Rightarrow> string \<Rightarrow> js_error + (string option \<times> string)" where
  "parseLoop [] url platform = Inr (url, platform)"
| "parseLoop (a # rest) url platform =
     (if startsWith a ''--url='' then
        parseLoop rest (index_js (split_str CHR ''='' a) 1) platform
      else if a = ''--url'' \<and> rest \<noteq> [] then
        parseLoop rest (Some (hd rest)) platform
      else if startsWith a ''--platform='' then
        (case index_js (split_str CHR ''='' a) 1 of
           None \<Rightarrow> Inl TypeError
         | Some v \<Rightarrow> parseLoop rest url (toLowerCase v))
      else if a = ''--platform'' \<and> rest \<noteq> [] then
        parseLoop rest url (toLowerCase (hd rest))
      else if \<not> startsWith a ''--'' \<and> falsy url then
        parseLoop rest (Some a) platform
      else parseLoop rest url platform)"

definition parseArgs :: "string list \<Rightarrow> js_error + (string option \<times> string)" where
  \<comment> \<open>the argument is \<^verbatim>\<open>process.argv\<close>; \<^verbatim>\<open>slice(2)\<close> drops the interpreter and the script\<close>
  "parseArgs argv = parseLoop (drop 2 argv) None ''desktop''"

definition isValidPlatform :: "string \<Rightarrow> bool" where
  "isValidPlatform platform = (toLowerCase platform \<in> set [''desktop'', ''mobile''])"

section \<open>Platform profiles\<close>

text \<open>
  JavaScript numbers are modelled as \<^typ>\<open>nat\<close> where the script only uses them as
  whole pixel counts, ports and percentages, and as \<^typ>\<open>rat\<close> elsewhere
  (\<^verbatim>\<open>1638.4\<close> is \<open>16384 / 10\<close>).
\<close>

record screenEmulation =
  mobile :: bool
  width :: nat
  height :: nat
  deviceScaleFactor :: nat
  disabled :: bool

record throttling =
  rttMs :: rat
  throughputKbps :: rat
  cpuSlowdownMultiplier :: rat
  requestLatencyMs :: rat
  downloadThroughputKbps :: rat
  uploadThroughputKbps :: rat

record profile =
  formFactor :: string
  screenEmulation :: screenEmulation
  throttling :: throttling

text \<open>
  The viewport of the rendering has the field names \<^verbatim>\<open>width\<close>, \<^verbatim>\<open>height\<close> and
  \<^verbatim>\<open>deviceScaleFactor\<close> of the screen emulation; here they carry a \<open>v\<close> in front.
\<close>

record viewport =
  vwidth :: nat
  vheight :: nat
  vdeviceScaleFactor :: nat

definition platformConfig :: "string \<Rightarrow> profile" where
  "platformConfig platform =
     (if platform = ''mobile'' then
        \<lparr> formFactor = ''mobile'',
          screenEmulation =
            \<lparr> mobile = True, width = 375, height = 667, deviceScaleFactor = 2,
              disabled = False \<rparr>,
          throttling =
            \<lparr> rttMs = 150, throughputKbps = 16384 / 10, cpuSlowdownMultiplier = 4,
              requestLatencyMs = 150, downloadThroughputKbps = 16384 / 10,
              uploadThroughputKbps = 675 \<rparr> \<rparr>
      else
        \<lparr> formFactor = ''desktop'',
          screenEmulation =
            \<lparr> mobile = False, width = 1350, height = 940, deviceScaleFactor = 1,
              disabled = False \<rparr>,
          throttling =
            \<lparr> rttMs = 40, throughputKbps = 10240, cpuSlowdownMultiplier = 1,
              requestLatencyMs = 0, downloadThroughputKbps = 0,
              uploadThroughputKbps = 0 \<rparr> \<rparr>)"

definition viewportConfig :: "string \<Rightarrow> viewport" where
  "viewportConfig platform =
     (if platform = ''mobile'' then \<lparr> vwidth = 375, vheight = 800, vdeviceScaleFactor = 2 \<rparr>
      else \<lparr> vwidth = 1200, vheight = 800, vdeviceScaleFactor = 1 \<rparr>)"

section \<open>File names\<close>

definition replace_colon_period :: "string \<Rightarrow> string" where
  \<comment> \<open>\<^verbatim>\<open>s.replace(/[:.]/g, "-")\<close>\<close>
  "replace_colon_period s = map (\<lambda>c. if c = CHR '':'' \<or> c = CHR ''.'' then CHR ''-'' else c) s"

definition getTimestamp :: "string \<Rightarrow> string" where
  \<comment> \<open>the argument is \<^verbatim>\<open>new Date().toISOString()\<close>; \<^verbatim>\<open>slice(0, -5)\<close> drops the last five
      characters, and all of a text shorter than that\<close>
  "getTimestamp isoString =
     (let r = replace_colon_period isoString in take (length r - 5) r)"

definition replace_non_alnum :: "string \<Rightarrow> string" where
  \<comment> \<open>\<^verbatim>\<open>s.replace(/[^a-zA-Z0-9]/g, "-")\<close>\<close>
  "replace_non_alnum s = map (\<lambda>c. if isAlnum c then c else CHR ''-'') s"

definition baseFilename :: "string \<Rightarrow> string \<Rightarrow> string \<Rightarrow> string" where
  "baseFilename domain platform timestamp =
     ''lighthouse-accessibility-'' @ domain @ ''-'' @ platform @ ''-'' @ timestamp"

definition path_join :: "string \<Rightarrow> string \<Rightarrow> string" where
  \<comment> \<open>\<^verbatim>\<open>path.join(dir, name)\<close> on POSIX, for a directory other than the root and a
      name without separators, which the names built below are\<close>
  "path_join dir name = dir @ ''/'' @ name"

section \<open>Numbers\<close>

text \<open>
  A number of the script is a double. The model gives a finite number by its
  value, a rational: \<open>round_double\<close> is the double nearest to a value (to the even
  one of two that are equally near), with the 53 binary digits and the smallest
  exponent of the format, and the product of two doubles is the double nearest to
  their exact product. A score is held as the double nearest to the value given
  for it. Values beyond the largest double do not occur: scores lie between 0
  and 1.
\<close>

function bitlen :: "int \<Rightarrow> int" where
  \<comment> \<open>the number of binary digits of a positive whole number\<close>
  "bitlen n = (if n \<le> 0 then 0 else 1 + bitlen (n div 2))"
  by pat_completeness auto
termination
  by (relation "measure nat") auto

declare bitlen.simps [simp del]

definition floor_log2 :: "rat \<Rightarrow> int" where
  \<comment> \<open>for \<open>x > 0\<close>, the exponent \<open>e\<close> with \<open>2 powi e \<le> x < 2 powi (e + 1)\<close>\<close>
  "floor_log2 x =
     (let d = bitlen (fst (quotient_of x)) - bitlen (snd (quotient_of x))
      in if 2 powi d \<le> x then d else d - 1)"

definition round_half_even :: "rat \<Rightarrow> int" where
  "round_half_even q =
     (let f = \<lfloor>q\<rfloor>; r = q - of_int f
      in if r < 1 / 2 then f else if 1 / 2 < r then f + 1 else if even f then f else f + 1)"

definition round_double :: "rat \<Rightarrow> rat" where
  "round_double x =
     (if x = 0 then 0
      else (let ulp = 2 powi (max (floor_log2 \<bar>x\<bar>) (- 1022) - 52)
            in of_int (round_half_even (x / ulp)) * ulp))"

definition js_times :: "rat \<Rightarrow> rat \<Rightarrow> rat" where
  \<comment> \<open>\<^verbatim>\<open>x * y\<close> on doubles\<close>
  "js_times x y = round_double (x * y)"

definition toNumber :: "rat option \<Rightarrow> rat" where
  \<comment> \<open>the number a score is in arithmetic: \<^verbatim>\<open>null\<close> is 0\<close>
  "toNumber v = (case v of None \<Rightarrow> 0 | Some x \<Rightarrow> round_double x)"

definition Math_round :: "rat \<Rightarrow> int" where
  \<comment> \<open>\<^verbatim>\<open>Math.round\<close>: the nearest integer, a half going up\<close>
  "Math_round x = \<lfloor>x + 1 / 2\<rfloor>"

text \<open>
  A whole number is printed in decimal digits, as a template literal prints the
  whole numbers below \<open>10 ^ 21\<close>.
\<close>

fun show_nat :: "nat \<Rightarrow> string" where
  "show_nat n =
     (if n < 10 then [digits ! n] else show_nat (n div 10) @ [digits ! (n mod 10)])"

definition show_int :: "int \<Rightarrow> string" where
  "show_int i = (if i < 0 then ''-'' @ show_nat (nat (- i)) else show_nat (nat i))"

section \<open>The collaborators\<close>

record options = profile +
  logLevel :: string
  outputFormat :: string
  onlyCategories :: "string list"
  port :: nat

record lhr =
  accessibility_score :: "rat option"
  audits :: "(string \<times> rat option) list"

record runnerResult =
  report :: string
  lhr :: lhr

datatype pageCall = WaitForTimeout nat | SetViewport viewport

record imageRequest =
  outputPath :: string
  html :: string
  imageType :: string
  quality :: nat
  puppeteerArgs :: "string list"
  beforeScreenshot :: "pageCall list"

text \<open>
  What the script does not compute itself is a field of the environment: the
  directory of the script, the clock, the URL parser of the platform, and the
  outcome of every call to a library. A call that rejects gives the message of
  its error (\<open>Inl\<close>, or \<open>Some\<close> for \<^verbatim>\<open>writeFile\<close>).
\<close>

record env =
  dirname :: string
  toISOString :: string
  URL_hostname :: "string \<Rightarrow> string option"
  launch :: "string list \<Rightarrow> string + nat"
  lighthouse :: "string \<Rightarrow> options \<Rightarrow> string + runnerResult option"
  writeFile :: "string \<Rightarrow> string \<Rightarrow> string option"
  nodeHtmlToImage :: "imageRequest \<Rightarrow> string + string"

datatype event =
    ConsoleLog string
  | ConsoleError string
  | ChromeLaunch "string list"
  | Lighthouse string options
  | WriteFile string string
  | NodeHtmlToImage imageRequest
  | ChromeKill
  | UnhandledRejection js_error

record outcome =
  trace :: "event list"
  files :: "string \<rightharpoonup> string"
  exit_code :: nat

section \<open>The script\<close>

definition cross_mark :: string where
  "cross_mark = [CHR 0xE2, CHR 0x9D, CHR 0x8C]"

definition rocket :: string where
  "rocket = [CHR 0xF0, CHR 0x9F, CHR 0x9A, CHR 0x80]"

definition mobile_phone :: string where
  "mobile_phone = [CHR 0xF0, CHR 0x9F, CHR 0x93, CHR 0xB1]"

definition wrench :: string where
  "wrench = [CHR 0xF0, CHR 0x9F, CHR 0x94, CHR 0xA7]"

definition magnifier :: string where
  "magnifier = [CHR 0xF0, CHR 0x9F, CHR 0x94, CHR 0x8D]"

definition page_up :: string where
  "page_up = [CHR 0xF0, CHR 0x9F, CHR 0x93, CHR 0x84]"

definition framed_picture :: string where
  "framed_picture = [CHR 0xF0, CHR 0x9F, CHR 0x96, CHR 0xBC, CHR 0xEF, CHR 0xB8, CHR 0x8F]"

definition camera_flash :: string where
  "camera_flash = [CHR 0xF0, CHR 0x9F, CHR 0x93, CHR 0xB8]"

definition bar_chart :: string where
  "bar_chart = [CHR 0xF0, CHR 0x9F, CHR 0x93, CHR 0x8A]"

definition check_mark :: string where
  "check_mark = [CHR 0xE2, CHR 0x9C, CHR 0x85]"

definition newline :: string where
  "newline = [CHR 0x0A]"

definition apostrophe :: string where
  "apostrophe = [CHR 0x27]"

definition isValidUrl :: "env \<Rightarrow> string \<Rightarrow> bool" where
  \<comment> \<open>\<^verbatim>\<open>new URL(string)\<close> returns, or throws and the function catches it\<close>
  "isValidUrl e s = (case URL_hostname e s of None \<Rightarrow> False | Some _ \<Rightarrow> True)"

definition chromeFlags :: "string list" where
  "chromeFlags = [''--headless'', ''--no-sandbox'', ''--disable-dev-shm-usage'']"

definition lighthouseOptions :: "nat \<Rightarrow> string \<Rightarrow> options" where
  \<comment> \<open>the four fields of the literal, then those of \<^verbatim>\<open>...platformConfig\<close>\<close>
  "lighthouseOptions chrome_port platform =
     (let c = platformConfig platform
      in \<lparr> formFactor = formFactor c, screenEmulation = screenEmulation c,
           throttling = throttling c,
           logLevel = ''info'', outputFormat = ''html'',
           onlyCategories = [''accessibility''], port = chrome_port \<rparr>)"

definition imageOptions :: "string \<Rightarrow> string \<Rightarrow> viewport \<Rightarrow> imageRequest" where
  \<comment> \<open>the argument of \<^verbatim>\<open>nodeHtmlToImage\<close>; \<^verbatim>\<open>beforeScreenshot\<close> is given as the calls
      it makes on the page, in order\<close>
  "imageOptions jpgFilePath htmlReport vc =
     \<lparr> outputPath = jpgFilePath, html = htmlReport, imageType = ''jpeg'', quality = 100,
       puppeteerArgs = [''--no-sandbox'', ''--disable-setuid-sandbox''],
       beforeScreenshot = [WaitForTimeout 2000, SetViewport vc] \<rparr>"

type_synonym stage = "string option \<times> event list \<times> (string \<rightharpoonup> string)"

text \<open>
  The body of the \<^verbatim>\<open>try\<close> block is cut into pieces at its \<^verbatim>\<open>await\<close>s. Each
  gives the message of the error thrown (\<open>None\<close> when the block completes), the
  events from there on, and the files on disk. A file exists once the write or
  the rendering that makes it has succeeded; the script never removes one.
\<close>

definition auditSummary :: "string \<Rightarrow> string \<Rightarrow> lhr \<Rightarrow> event list" where
  \<comment> \<open>the lines after the image is saved, down to the end of the block\<close>
  "auditSummary url platform l =
     (let accessibilityScore = accessibility_score l;
          scorePercentage = Math_round (js_times (toNumber accessibilityScore) 100);
          failedAudits =
            length (filter (\<lambda>a. case snd a of None \<Rightarrow> False | Some s \<Rightarrow> round_double s < 1)
                      (audits l))
      in [ConsoleLog (newline @ bar_chart @ '' Audit Summary:''),
          ConsoleLog (''   URL: '' @ url),
          ConsoleLog (''   Platform: '' @ platform),
          ConsoleLog (''   Accessibility Score: '' @ show_int scorePercentage @ ''/100''),
          ConsoleLog (''   Total Audits: '' @ show_nat (length (audits l)))]
         @ (if failedAudits > 0
            then [ConsoleLog (''   Failed Audits: '' @ show_nat failedAudits)] else [])
         @ [ConsoleLog (newline @ check_mark @ '' Audit completed successfully!'')])"

definition renderStage ::
  "env \<Rightarrow> string \<Rightarrow> string \<Rightarrow> runnerResult \<Rightarrow> string \<Rightarrow> (string \<rightharpoonup> string) \<Rightarrow> stage" where
  "renderStage e url platform runnerResult base fs =
     (let htmlReport = report runnerResult;
          jpgFilePath = path_join (dirname e) (base @ ''.jpg'');
          request = imageOptions jpgFilePath htmlReport (viewportConfig platform);
          t = [ConsoleLog (framed_picture @ ''  Converting HTML report to JPG...''),
               NodeHtmlToImage request]
      in case nodeHtmlToImage e request of
           Inl msg \<Rightarrow> (Some msg, t, fs)
         | Inr jpeg \<Rightarrow>
             (None,
              t @ [ConsoleLog (camera_flash @ '' JPG image saved: '' @ jpgFilePath)]
                @ auditSummary url platform (lhr runnerResult),
              fs(jpgFilePath \<mapsto> jpeg)))"

definition reportStage ::
  "env \<Rightarrow> string \<Rightarrow> string \<Rightarrow> runnerResult \<Rightarrow> (string \<rightharpoonup> string) \<Rightarrow> stage" where
  "reportStage e url platform runnerResult fs =
     (let htmlReport = report runnerResult;
          timestamp = getTimestamp (toISOString e)
      in case URL_hostname e url of
           None \<Rightarrow> (Some ''Invalid URL'', [], fs)
         | Some hostname \<Rightarrow>
             (let domain = replace_non_alnum hostname;
                  base = baseFilename domain platform timestamp;
                  htmlFilePath = path_join (dirname e) (base @ ''.html'')
              in case writeFile e htmlFilePath htmlReport of
                   Some msg \<Rightarrow> (Some msg, [WriteFile htmlFilePath htmlReport], fs)
                 | None \<Rightarrow>
                     (case renderStage e url platform runnerResult base
                             (fs(htmlFilePath \<mapsto> htmlReport)) of
                        (r, t, fs') \<Rightarrow>
                          (r,
                           [WriteFile htmlFilePath htmlReport,
                            ConsoleLog (page_up @ '' HTML report saved: '' @ htmlFilePath)] @ t,
                           fs'))))"

definition auditStage ::
  "env \<Rightarrow> string \<Rightarrow> string \<Rightarrow> nat \<Rightarrow> (string \<rightharpoonup> string) \<Rightarrow> stage" where
  "auditStage e url platform chrome_port fs =
     (let opts = lighthouseOptions chrome_port platform;
          t = [ConsoleLog (''platform '' @ platform),
               ConsoleLog (magnifier @ '' Running Lighthouse audit...''),
               Lighthouse url opts]
      in case lighthouse e url opts of
           Inl msg \<Rightarrow> (Some msg, t, fs)
         | Inr None \<Rightarrow> (Some ''Lighthouse audit failed to return results'', t, fs)
         | Inr (Some runnerResult) \<Rightarrow>
             (case reportStage e url platform runnerResult fs of
                (r, t', fs') \<Rightarrow> (r, t @ t', fs')))"

definition tryBlock :: "env \<Rightarrow> string \<Rightarrow> string \<Rightarrow> (string \<rightharpoonup> string) \<Rightarrow> stage" where
  "tryBlock e url platform fs =
     (let t = [ConsoleLog (wrench @ '' Launching Chrome...''), ChromeLaunch chromeFlags]
      in case launch e chromeFlags of
           Inl msg \<Rightarrow> (Some msg, t, fs)
         | Inr chrome_port \<Rightarrow>
             (case auditStage e url platform chrome_port fs of
                (r, t', fs') \<Rightarrow> (r, t @ t', fs')))"

definition usageExit :: "(string \<rightharpoonup> string) \<Rightarrow> outcome" where
  "usageExit fs =
     \<lparr> trace =
         [ConsoleError (cross_mark @ '' Error: Please provide a URL to audit''),
          ConsoleLog ''Usage: node lighthouse-audit.js <URL> [--platform=desktop|mobile]'',
          ConsoleLog ''   or: node lighthouse-audit.js --url=<URL> --platform=<desktop|mobile>'',
          ConsoleLog ''Example: node lighthouse-audit.js https://example.com --platform=mobile''],
       files = fs, exit_code = 1 \<rparr>"

text \<open>
  \<^verbatim>\<open>process.exit\<close> ends the process inside the call: nothing of the script runs
  after it, neither the rest of the function nor a \<^verbatim>\<open>finally\<close> block that is still
  pending. So an error caught by the \<^verbatim>\<open>catch\<close> block is printed and the process
  ends there with code 1; the \<^verbatim>\<open>finally\<close> block runs when the \<^verbatim>\<open>try\<close> block
  completes, \<^verbatim>\<open>chrome\<close> is then the launched browser, and the process ends with
  code 0 once the function has returned. \<^verbatim>\<open>chrome.kill()\<close> is taken to resolve.
  An exception of \<^verbatim>\<open>parseArgs\<close> would reject the promise of the function, which the
  handler of unhandled rejections reports before it exits with code 1.
\<close>

definition runLighthouseAudit :: "env \<Rightarrow> string list \<Rightarrow> (string \<rightharpoonup> string) \<Rightarrow> outcome" where
  "runLighthouseAudit e argv fs =
     (case parseArgs argv of
        Inl err \<Rightarrow> \<lparr> trace = [UnhandledRejection err], files = fs, exit_code = 1 \<rparr>
      | Inr (url_opt, platform) \<Rightarrow>
          if falsy url_opt then usageExit fs
          else (case url_opt of
                  None \<Rightarrow> usageExit fs
                | Some url \<Rightarrow>
                    if \<not> isValidUrl e url then
                      \<lparr> trace = [ConsoleError (cross_mark @ '' Error: Invalid URL provided'')],
                        files = fs, exit_code = 1 \<rparr>
                    else if \<not> isValidPlatform platform then
                      \<lparr> trace =
                          [ConsoleError
                             (cross_mark @ '' Error: Invalid platform. Use '' @ apostrophe
                              @ ''desktop'' @ apostrophe @ '' or '' @ apostrophe @ ''mobile''
                              @ apostrophe)],
                        files = fs, exit_code = 1 \<rparr>
                    else
                      (let t0 =
                             [ConsoleLog
                                (rocket @ '' Starting Lighthouse accessibility audit for: '' @ url),
                              ConsoleLog (mobile_phone @ '' Platform: '' @ platform)]
                       in case tryBlock e url platform fs of
                            (Some msg, t, fs') \<Rightarrow>
                              \<lparr> trace =
                                  t0 @ t
                                  @ [ConsoleError (cross_mark @ '' Error during audit: '' @ msg)],
                                files = fs', exit_code = 1 \<rparr>
                          | (None, t, fs') \<Rightarrow>
                              \<lparr> trace = t0 @ t @ [ChromeKill], files = fs', exit_code = 0 \<rparr>)))"

section \<open>An example run\<close>

definition example_result :: runnerResult where
  "example_result =
     \<lparr> report = ''<html>report</html>'',
       lhr = \<lparr> accessibility_score = Some (95 / 100),
               audits = [(''color-contrast'', Some 0), (''image-alt'', Some 1),
                         (''video-caption'', None)] \<rparr> \<rparr>"

definition example_env :: env where
  "example_env =
     \<lparr> dirname = ''/app/scripts'',
       toISOString = ''2024-01-15T10:30:45.123Z'',
       URL_hostname = (\<lambda>s. if s = ''https://example.com'' then Some ''example.com'' else None),
       launch = (\<lambda>flags. Inr 9222),
       lighthouse = (\<lambda>url opts. Inr (Some example_result)),
       writeFile = (\<lambda>path content. None),
       nodeHtmlToImage = (\<lambda>request. Inr ''JPEG'') \<rparr>"

section \<open>Facts about the argument parser\<close>

lemma split_str_not_Nil: "split_str c s \<noteq> []"
  by (induction s) (auto split: list.splits)

lemma startsWith_append: "startsWith s p \<Longrightarrow> \<exists>b. s = p @ b"
  unfolding startsWith_def by (metis append_take_drop_id)

lemma split_platform_flag:
  "split_str CHR ''='' (''--platform='' @ b) = ''--platform'' # split_str CHR ''='' b"
  by (simp split: list.splits add: split_str_not_Nil)

lemma platform_flag_value:
  assumes "startsWith a ''--platform=''"
  shows "\<exists>v. index_js (split_str CHR ''='' a) 1 = Some v"
proof -
  from assms obtain b where a: "a = ''--platform='' @ b"
    using startsWith_append by blast
  obtain w ws where "split_str CHR ''='' b = w # ws"
    using split_str_not_Nil by (cases "split_str CHR ''='' b") auto
  then show ?thesis
    unfolding a split_platform_flag by (simp add: index_js_def)
qed

lemma parseLoop_returns: "\<exists>u p. parseLoop xs url platform = Inr (u, p)"
proof (induction xs arbitrary: url platform)
  case Nil
  show ?case by simp
next
  case (Cons a xs)
  show ?case
    using Cons.IH platform_flag_value [of a] by (auto split: option.splits)
qed

lemma parseArgs_returns: "\<exists>u p. parseArgs argv = Inr (u, p)"
  unfolding parseArgs_def by (rule parseLoop_returns)

lemma startsWith_platform_eq: "startsWith a ''--platform='' \<Longrightarrow> startsWith a ''--platform''"
  using startsWith_append [of a "''--platform=''"] by (auto simp: startsWith_def)

lemma parseLoop_default:
  assumes "\<forall>a \<in> set xs. \<not> startsWith a ''--platform''"
  shows "\<exists>u. parseLoop xs url platform = Inr (u, platform)"
  using assms
proof (induction xs arbitrary: url)
  case Nil
  show ?case by simp
next
  case (Cons a xs)
  have "\<not> startsWith a ''--platform=''" "a \<noteq> ''--platform''"
    using Cons.prems startsWith_platform_eq [of a] by (auto simp: startsWith_def)
  then show ?case
    using Cons.IH Cons.prems by auto
qed

lemma split_str_absent: "c \<notin> set s \<Longrightarrow> split_str c s = [s]"
  by (induction s) auto

lemma toLowerChar_eq_sign: "toLowerChar CHR ''='' = CHR ''=''"
  by (simp add: toLowerChar_def upperCase_def lowerCase_def)

lemma toLowerChar_hyphen: "toLowerChar CHR ''-'' = CHR ''-''"
  by (simp add: toLowerChar_def upperCase_def lowerCase_def)

lemma kelvin_sign_folded: "toLowerCase (''DES'' @ kelvin_sign @ ''TOP'') = ''desktop''"
  by (simp add: kelvin_sign_def toLowerChar_def upperCase_def lowerCase_def)

lemma eq_sign_kept: "CHR ''='' \<in> set s \<Longrightarrow> CHR ''='' \<in> set (toLowerCase s)"
  by (induction s rule: toLowerCase.induct) (auto simp: toLowerChar_eq_sign kelvin_sign_def)

lemma mobile_no_eq_sign:
  assumes "toLowerCase p = ''mobile''"
  shows "CHR ''='' \<notin> set p"
proof
  assume "CHR ''='' \<in> set p"
  then have "CHR ''='' \<in> set (toLowerCase p)"
    by (rule eq_sign_kept)
  then show False
    unfolding assms by simp
qed

lemma hyphen_kept: "\<exists>t. toLowerCase (CHR ''-'' # cs) = CHR ''-'' # t"
proof (cases cs)
  case Nil
  then show ?thesis by (simp add: toLowerChar_hyphen)
next
  case (Cons b cs')
  then show ?thesis
    by (cases cs') (simp_all add: toLowerChar_hyphen kelvin_sign_def)
qed

lemma mobile_first_char:
  assumes "toLowerCase p = ''mobile''"
  shows "\<exists>c cs. p = c # cs \<and> c \<noteq> CHR ''-''"
proof (cases p)
  case Nil
  with assms show ?thesis by simp
next
  case (Cons c cs)
  have "c \<noteq> CHR ''-''"
  proof
    assume "c = CHR ''-''"
    with hyphen_kept [of cs] assms Cons show False
      by auto
  qed
  with Cons show ?thesis by simp
qed

lemma parseLoop_mobile_value:
  assumes "toLowerCase p = ''mobile''"
  shows "\<exists>u. parseLoop [p] url ''mobile'' = Inr (u, ''mobile'')"
proof -
  from mobile_first_char [OF assms] obtain c cs where p: "p = c # cs" and c: "c \<noteq> CHR ''-''"
    by blast
  show ?thesis
    unfolding p using c by (simp add: startsWith_def)
qed

lemma parseLoop_last_eq_form:
  assumes "toLowerCase p = ''mobile''"
  shows "\<exists>u. parseLoop (xs @ [''--platform='' @ p]) url platform = Inr (u, ''mobile'')"
proof (induction xs arbitrary: url platform)
  case Nil
  have "split_str CHR ''='' p = [p]"
    using mobile_no_eq_sign [OF assms] by (rule split_str_absent)
  then show ?case
    using assms by (simp add: startsWith_def index_js_def)
next
  case (Cons a xs)
  show ?case
    using Cons.IH platform_flag_value [of a] by (auto split: option.splits)
qed

lemma parseLoop_last_space_form:
  assumes "toLowerCase p = ''mobile''"
  shows "\<exists>u. parseLoop (xs @ [''--platform'', p]) url platform = Inr (u, ''mobile'')"
proof (induction xs arbitrary: url platform)
  case Nil
  show ?case
    using assms parseLoop_mobile_value [OF assms] by (simp add: startsWith_def)
next
  case (Cons a xs)
  show ?case
    using Cons.IH platform_flag_value [of a] by (auto split: option.splits)
qed

section \<open>The platform profiles\<close>

text \<open>
  C2. For the platform \<^verbatim>\<open>desktop\<close> the profile is: form factor desktop; screen
  emulation not mobile, 1350 by 940, scale 1; added request latency 0, download and
  upload throughput 0 (no cap), CPU slowdown multiplier 1 (the simulated link keeps
  the source's 40 ms round trip and 10240 Kbps); rendering viewport 1200 by 800,
  scale 1. When no argument starts with \<^verbatim>\<open>--platform\<close>, the parsed platform is
  \<^verbatim>\<open>desktop\<close>.
\<close>

theorem desktop_profile:
  "platformConfig ''desktop'' =
     \<lparr> formFactor = ''desktop'',
       screenEmulation =
         \<lparr> mobile = False, width = 1350, height = 940, deviceScaleFactor = 1,
           disabled = False \<rparr>,
       throttling =
         \<lparr> rttMs = 40, throughputKbps = 10240, cpuSlowdownMultiplier = 1,
           requestLatencyMs = 0, downloadThroughputKbps = 0, uploadThroughputKbps = 0 \<rparr> \<rparr>
   \<and> viewportConfig ''desktop'' = \<lparr> vwidth = 1200, vheight = 800, vdeviceScaleFactor = 1 \<rparr>
   \<and> ((\<forall>a \<in> set (drop 2 argv). \<not> startsWith a ''--platform'')
        \<longrightarrow> (\<exists>u. parseArgs argv = Inr (u, ''desktop'')))"
  using parseLoop_default [of "drop 2 argv" None "''desktop''"]
  by (simp add: platformConfig_def viewportConfig_def parseArgs_def)

theorem desktop_profile_witness:
  "parseArgs [''node'', ''lighthouse-audit.js'', ''https://example.com'']
     = Inr (Some ''https://example.com'', ''desktop'')
   \<and> throttling (platformConfig ''desktop'')
       = \<lparr> rttMs = 40, throughputKbps = 10240, cpuSlowdownMultiplier = 1,
           requestLatencyMs = 0, downloadThroughputKbps = 0, uploadThroughputKbps = 0 \<rparr>"
proof -
  have h: "\<forall>a \<in> set (drop 2 [''node'', ''lighthouse-audit.js'', ''https://example.com'']).
             \<not> startsWith a ''--platform''"
    by (simp add: startsWith_def)
  show ?thesis
    using h desktop_profile [of "[''node'', ''lighthouse-audit.js'', ''https://example.com'']"]
    by (simp add: startsWith_def parseArgs_def falsy_def)
qed

text \<open>
  C5. When the last platform flag carries a value that is \<^verbatim>\<open>mobile\<close> in any casing,
  as \<^verbatim>\<open>--platform=<value>\<close> or as \<^verbatim>\<open>--platform <value>\<close>, the parsed platform is
  \<^verbatim>\<open>mobile\<close> and the profile is: form factor mobile; screen emulation mobile,
  375 by 667, scale 2; CPU slowdown multiplier 4 and throughput 1638.4 Kbps;
  rendering viewport 375 by 800, scale 2.
\<close>

theorem mobile_profile:
  assumes "toLowerCase p = ''mobile''"
  shows "(\<exists>u. parseArgs (node # script # xs @ [''--platform='' @ p]) = Inr (u, ''mobile''))
   \<and> (\<exists>u. parseArgs (node # script # xs @ [''--platform'', p]) = Inr (u, ''mobile''))
   \<and> platformConfig (toLowerCase p) =
     \<lparr> formFactor = ''mobile'',
       screenEmulation =
         \<lparr> mobile = True, width = 375, height = 667, deviceScaleFactor = 2,
           disabled = False \<rparr>,
       throttling =
         \<lparr> rttMs = 150, throughputKbps = 16384 / 10, cpuSlowdownMultiplier = 4,
           requestLatencyMs = 150, downloadThroughputKbps = 16384 / 10,
           uploadThroughputKbps = 675 \<rparr> \<rparr>
   \<and> viewportConfig (toLowerCase p) = \<lparr> vwidth = 375, vheight = 800, vdeviceScaleFactor = 2 \<rparr>"
  using parseLoop_last_eq_form [OF assms, of xs None "''desktop''"]
    parseLoop_last_space_form [OF assms, of xs None "''desktop''"]
  by (simp add: assms platformConfig_def viewportConfig_def parseArgs_def)

theorem mobile_profile_witness:
  "toLowerCase ''MoBiLe'' = ''mobile''
   \<and> parseArgs [''node'', ''lighthouse-audit.js'', ''https://example.com'', ''--platform=MoBiLe'']
       = Inr (Some ''https://example.com'', ''mobile'')
   \<and> parseArgs [''node'', ''lighthouse-audit.js'', ''https://example.com'', ''--platform'', ''MoBiLe'']
       = Inr (Some ''https://example.com'', ''mobile'')
   \<and> cpuSlowdownMultiplier (throttling (platformConfig (toLowerCase ''MoBiLe''))) = 4
   \<and> throughputKbps (throttling (platformConfig (toLowerCase ''MoBiLe''))) = 16384 / 10"
proof -
  have h: "toLowerCase ''MoBiLe'' = ''mobile''"
    by (simp add: kelvin_sign_def toLowerChar_def upperCase_def lowerCase_def)
  show ?thesis
    using h mobile_profile [OF h, of "''node''" "''lighthouse-audit.js''" "[''https://example.com'']"]
    by (simp add: startsWith_def parseArgs_def falsy_def index_js_def)
qed

section \<open>The value of the URL flag\<close>

text \<open>
  C3. The parser is to take the URL from \<^verbatim>\<open>--url=<value>\<close>. Here the value holds a
  second \<^verbatim>\<open>=\<close>, in its query string, and the parser keeps only what stands
  before it.
\<close>

theorem url_flag_value_truncated:
  "parseArgs [''node'', ''lighthouse-audit.js'', ''--url=https://example.com/?q=1'']
     = Inr (Some ''https://example.com/?q'', ''desktop'')"
  by (simp add: parseArgs_def startsWith_def index_js_def)

section \<open>Facts about the file name\<close>

lemma replace_colon_period_append:
  "replace_colon_period (a @ b) = replace_colon_period a @ replace_colon_period b"
  by (simp add: replace_colon_period_def)

lemma replace_colon_period_id:
  "\<forall>c \<in> set s. c \<noteq> CHR '':'' \<and> c \<noteq> CHR ''.'' \<Longrightarrow> replace_colon_period s = s"
  by (simp add: replace_colon_period_def map_idI)

lemma length_replace_colon_period: "length (replace_colon_period s) = length s"
  by (simp add: replace_colon_period_def)

lemma getTimestamp_iso:
  assumes ms: "length ms = 3"
    and clean: "\<forall>c \<in> set (d @ hh @ mm @ ss). c \<noteq> CHR '':'' \<and> c \<noteq> CHR ''.''"
  shows "getTimestamp (d @ ''T'' @ hh @ '':'' @ mm @ '':'' @ ss @ ''.'' @ ms @ ''Z'')
           = d @ ''T'' @ hh @ ''-'' @ mm @ ''-'' @ ss"
proof -
  let ?kept = "d @ ''T'' @ hh @ ''-'' @ mm @ ''-'' @ ss"
  let ?cut = "''-'' @ replace_colon_period ms @ ''Z''"
  have parts: "replace_colon_period d = d" "replace_colon_period hh = hh"
    "replace_colon_period mm = mm" "replace_colon_period ss = ss"
    using clean by (simp_all add: replace_colon_period_id)
  have lit: "replace_colon_period ''T'' = ''T''" "replace_colon_period '':'' = ''-''"
    "replace_colon_period ''.'' = ''-''" "replace_colon_period ''Z'' = ''Z''"
    by (simp_all add: replace_colon_period_def)
  have r: "replace_colon_period (d @ ''T'' @ hh @ '':'' @ mm @ '':'' @ ss @ ''.'' @ ms @ ''Z'')
             = ?kept @ ?cut"
    by (simp only: replace_colon_period_append parts lit append_assoc)
  have len: "length (?kept @ ?cut) - 5 = length ?kept"
    using ms by (simp add: length_replace_colon_period)
  have "getTimestamp (d @ ''T'' @ hh @ '':'' @ mm @ '':'' @ ss @ ''.'' @ ms @ ''Z'')
          = take (length (?kept @ ?cut) - 5) (?kept @ ?cut)"
    unfolding getTimestamp_def Let_def r ..
  also have "\<dots> = take (length ?kept) (?kept @ ?cut)"
    by (simp only: len)
  also have "\<dots> = ?kept"
    by (rule append_eq_conv_conj [THEN iffD1, THEN conjunct1, symmetric]) (rule refl)
  finally show ?thesis .
qed

section \<open>Facts about the run\<close>

lemma tryBlock_write:
  assumes "tryBlock e url platform fs = (r, t, fs')" and "WriteFile p c \<in> set t"
  shows "\<exists>h cport rr. URL_hostname e url = Some h \<and> launch e chromeFlags = Inr cport
           \<and> lighthouse e url (lighthouseOptions cport platform) = Inr (Some rr)
           \<and> c = report rr
           \<and> p = path_join (dirname e)
                   (baseFilename (replace_non_alnum h) platform (getTimestamp (toISOString e))
                    @ ''.html'')"
  using assms
  unfolding tryBlock_def auditStage_def reportStage_def renderStage_def auditSummary_def
  by (auto split: option.splits sum.splits prod.splits simp: Let_def)

lemma kill_only_on_success:
  "ChromeKill \<in> set (trace (runLighthouseAudit e argv fs))
     \<longleftrightarrow> exit_code (runLighthouseAudit e argv fs) = 0"
  unfolding runLighthouseAudit_def usageExit_def tryBlock_def auditStage_def reportStage_def
    renderStage_def auditSummary_def
  by (auto split: option.splits sum.splits prod.splits simp: Let_def)


lemma tryBlock_render_call:
  assumes "tryBlock e url platform fs = (r, t, fs')" and "NodeHtmlToImage req \<in> set t"
  shows "\<exists>h cport rr. URL_hostname e url = Some h \<and> launch e chromeFlags = Inr cport
      \<and> lighthouse e url (lighthouseOptions cport platform) = Inr (Some rr)
      \<and> writeFile e
           (path_join (dirname e)
              (baseFilename (replace_non_alnum h) platform (getTimestamp (toISOString e))
               @ ''.html''))
           (report rr) = None
      \<and> req = imageOptions
           (path_join (dirname e)
              (baseFilename (replace_non_alnum h) platform (getTimestamp (toISOString e))
               @ ''.jpg''))
           (report rr) (viewportConfig platform)"
  using assms
  unfolding tryBlock_def auditStage_def reportStage_def renderStage_def auditSummary_def
  by (auto split: option.splits sum.splits prod.splits simp: Let_def)

lemma tryBlock_rendering:
  assumes "URL_hostname e url = Some h" and "launch e chromeFlags = Inr cport"
    and "lighthouse e url (lighthouseOptions cport platform) = Inr (Some rr)"
    and "base = baseFilename (replace_non_alnum h) platform (getTimestamp (toISOString e))"
    and "writeFile e (path_join (dirname e) (base @ ''.html'')) (report rr) = None"
    and "req = imageOptions (path_join (dirname e) (base @ ''.jpg'')) (report rr)
                 (viewportConfig platform)"
  shows "tryBlock e url platform fs =
     (case nodeHtmlToImage e req of
        Inl msg \<Rightarrow> Some msg
      | Inr jpeg \<Rightarrow> None,
      [ConsoleLog (wrench @ '' Launching Chrome...''),
       ChromeLaunch chromeFlags,
       ConsoleLog (''platform '' @ platform),
       ConsoleLog (magnifier @ '' Running Lighthouse audit...''),
       Lighthouse url (lighthouseOptions cport platform),
       WriteFile (path_join (dirname e) (base @ ''.html'')) (report rr),
       ConsoleLog (page_up @ '' HTML report saved: '' @ path_join (dirname e) (base @ ''.html'')),
       ConsoleLog (framed_picture @ ''  Converting HTML report to JPG...'')]
      @ NodeHtmlToImage req
      # (case nodeHtmlToImage e req of
           Inl msg \<Rightarrow> []
         | Inr jpeg \<Rightarrow>
             ConsoleLog (camera_flash @ '' JPG image saved: ''
                         @ path_join (dirname e) (base @ ''.jpg''))
             # auditSummary url platform (lhr rr)),
      case nodeHtmlToImage e req of
        Inl msg \<Rightarrow> fs(path_join (dirname e) (base @ ''.html'') \<mapsto> report rr)
      | Inr jpeg \<Rightarrow>
          fs(path_join (dirname e) (base @ ''.html'') \<mapsto> report rr,
             path_join (dirname e) (base @ ''.jpg'') \<mapsto> jpeg))"
  using assms
  unfolding tryBlock_def auditStage_def reportStage_def renderStage_def
  by (simp add: Let_def split: sum.splits)

lemma run_valid:
  assumes "parseArgs argv = Inr (Some url, platform)" and "url \<noteq> []"
    and "URL_hostname e url = Some h" and "isValidPlatform platform"
    and "tryBlock e url platform fs = (r, t, fs')"
  shows "runLighthouseAudit e argv fs =
     \<lparr> trace =
         [ConsoleLog (rocket @ '' Starting Lighthouse accessibility audit for: '' @ url),
          ConsoleLog (mobile_phone @ '' Platform: '' @ platform)]
         @ t
         @ (case r of
              Some msg \<Rightarrow> [ConsoleError (cross_mark @ '' Error during audit: '' @ msg)]
            | None \<Rightarrow> [ChromeKill]),
       files = fs',
       exit_code = (case r of Some msg \<Rightarrow> 1 | None \<Rightarrow> 0) \<rparr>"
  using assms
  by (simp add: runLighthouseAudit_def falsy_def isValidUrl_def Let_def split: option.splits)

lemma run_event_origin:
  assumes "ev \<in> set (trace (runLighthouseAudit e argv fs))"
    and "\<forall>s. ev \<noteq> ConsoleLog s" and "\<forall>s. ev \<noteq> ConsoleError s"
    and "ev \<noteq> ChromeKill" and "\<forall>x. ev \<noteq> UnhandledRejection x"
  shows "\<exists>url platform h r t fs'. parseArgs argv = Inr (Some url, platform) \<and> url \<noteq> []
      \<and> URL_hostname e url = Some h \<and> isValidPlatform platform
      \<and> tryBlock e url platform fs = (r, t, fs') \<and> ev \<in> set t"
  using assms
  unfolding runLighthouseAudit_def usageExit_def isValidUrl_def falsy_def
  by (auto split: option.splits sum.splits prod.splits if_splits simp: Let_def)

lemma run_success_origin:
  assumes "exit_code (runLighthouseAudit e argv fs) = 0"
  shows "\<exists>req. NodeHtmlToImage req \<in> set (trace (runLighthouseAudit e argv fs))"
  using assms
  unfolding runLighthouseAudit_def usageExit_def tryBlock_def auditStage_def reportStage_def
    renderStage_def
  by (auto split: option.splits sum.splits prod.splits if_splits simp: Let_def)

lemma run_render [consumes 1, case_names rendering]:
  assumes "NodeHtmlToImage req \<in> set (trace (runLighthouseAudit e argv fs))"
  obtains url platform h cport rr base
  where "parseArgs argv = Inr (Some url, platform)"
    and "URL_hostname e url = Some h"
    and "isValidPlatform platform"
    and "launch e chromeFlags = Inr cport"
    and "lighthouse e url (lighthouseOptions cport platform) = Inr (Some rr)"
    and "base = baseFilename (replace_non_alnum h) platform (getTimestamp (toISOString e))"
    and "writeFile e (path_join (dirname e) (base @ ''.html'')) (report rr) = None"
    and "req = imageOptions (path_join (dirname e) (base @ ''.jpg'')) (report rr)
               (viewportConfig platform)"
    and "trace (runLighthouseAudit e argv fs) =
           [ConsoleLog (rocket @ '' Starting Lighthouse accessibility audit for: '' @ url),
            ConsoleLog (mobile_phone @ '' Platform: '' @ platform),
            ConsoleLog (wrench @ '' Launching Chrome...''),
            ChromeLaunch chromeFlags,
            ConsoleLog (''platform '' @ platform),
            ConsoleLog (magnifier @ '' Running Lighthouse audit...''),
            Lighthouse url (lighthouseOptions cport platform),
            WriteFile (path_join (dirname e) (base @ ''.html'')) (report rr),
            ConsoleLog (page_up @ '' HTML report saved: ''
                        @ path_join (dirname e) (base @ ''.html'')),
            ConsoleLog (framed_picture @ ''  Converting HTML report to JPG...'')]
           @ NodeHtmlToImage req
           # (case nodeHtmlToImage e req of
                Inl msg \<Rightarrow> [ConsoleError (cross_mark @ '' Error during audit: '' @ msg)]
              | Inr jpeg \<Rightarrow>
                  ConsoleLog (camera_flash @ '' JPG image saved: ''
                              @ path_join (dirname e) (base @ ''.jpg''))
                  # auditSummary url platform (lhr rr) @ [ChromeKill])"
    and "files (runLighthouseAudit e argv fs) =
           (case nodeHtmlToImage e req of
              Inl msg \<Rightarrow> fs(path_join (dirname e) (base @ ''.html'') \<mapsto> report rr)
            | Inr jpeg \<Rightarrow>
                fs(path_join (dirname e) (base @ ''.html'') \<mapsto> report rr,
                   path_join (dirname e) (base @ ''.jpg'') \<mapsto> jpeg))"
    and "exit_code (runLighthouseAudit e argv fs) =
           (case nodeHtmlToImage e req of Inl msg \<Rightarrow> 1 | Inr jpeg \<Rightarrow> 0)"
proof -
  from run_event_origin [OF assms]
  obtain url platform h r t fs' where parse: "parseArgs argv = Inr (Some url, platform)"
    and url: "url \<noteq> []" and host: "URL_hostname e url = Some h"
    and plat: "isValidPlatform platform"
    and tb: "tryBlock e url platform fs = (r, t, fs')" and mem: "NodeHtmlToImage req \<in> set t"
    by auto
  define base
    where "base = baseFilename (replace_non_alnum h) platform (getTimestamp (toISOString e))"
  from tryBlock_render_call [OF tb mem] host
  obtain cport rr where launched: "launch e chromeFlags = Inr cport"
    and audited: "lighthouse e url (lighthouseOptions cport platform) = Inr (Some rr)"
    and written: "writeFile e (path_join (dirname e) (base @ ''.html'')) (report rr) = None"
    and req: "req = imageOptions (path_join (dirname e) (base @ ''.jpg'')) (report rr)
                (viewportConfig platform)"
    unfolding base_def by auto
  note shape = tryBlock_rendering [OF host launched audited base_def written req, of fs]
  note run = run_valid [OF parse url host plat shape]
  show ?thesis
    by (rule that [OF parse host plat launched audited base_def written req])
      (simp_all add: run split: sum.splits)
qed


lemma ends_with_Cons: "\<exists>pre. t = pre @ s \<Longrightarrow> \<exists>pre. x # t = pre @ s"
  by (metis append_Cons)

lemma ends_with_refl: "\<exists>pre. s = pre @ s"
  by (rule exI [of _ "[]"]) simp

section \<open>Rejected input\<close>

lemma invalid_parsed_input_exits:
  assumes "parseArgs argv = Inr (url, platform)"
    and "falsy url \<or> (\<exists>u. url = Some u \<and> URL_hostname e u = None)
         \<or> toLowerCase platform \<notin> {''desktop'', ''mobile''}"
  shows "exit_code (runLighthouseAudit e argv fs) = 1
     \<and> files (runLighthouseAudit e argv fs) = fs
     \<and> (\<exists>d. ConsoleError d \<in> set (trace (runLighthouseAudit e argv fs)))
     \<and> (\<forall>ev \<in> set (trace (runLighthouseAudit e argv fs)).
            \<exists>s. ev = ConsoleLog s \<or> ev = ConsoleError s)"
  using assms
  unfolding runLighthouseAudit_def usageExit_def isValidUrl_def isValidPlatform_def
  by (auto split: option.splits)

text \<open>
  C4. An argument list whose URL is absent or does not parse, or whose platform is
  no casing of \<^verbatim>\<open>desktop\<close> or \<^verbatim>\<open>mobile\<close>, is to end the run with exit code 1 before
  a browser is launched or a file is written. The checks do so for the URL and
  the platform that the parser hands over (\<open>invalid_parsed_input_exits\<close>). The
  parser, however, keeps of \<^verbatim>\<open>--platform=<value>\<close> only what stands before a second
  \<^verbatim>\<open>=\<close>: the value \<^verbatim>\<open>mobile=x\<close> is no casing of \<^verbatim>\<open>desktop\<close> or \<^verbatim>\<open>mobile\<close>, it is
  handed over as \<^verbatim>\<open>mobile\<close>, and the run launches the browser, writes the report
  and ends with exit code 0.
\<close>

theorem truncated_platform_accepted:
  "toLowerCase ''mobile=x'' \<notin> {''desktop'', ''mobile''}
   \<and> parseArgs [''node'', ''lighthouse-audit.js'', ''https://example.com'',
                 ''--platform=mobile=x'']
       = Inr (Some ''https://example.com'', ''mobile'')
   \<and> ChromeLaunch chromeFlags
       \<in> set (trace (runLighthouseAudit example_env
                  [''node'', ''lighthouse-audit.js'', ''https://example.com'',
                   ''--platform=mobile=x''] Map.empty))
   \<and> files (runLighthouseAudit example_env
              [''node'', ''lighthouse-audit.js'', ''https://example.com'',
               ''--platform=mobile=x''] Map.empty)
         ''/app/scripts/lighthouse-accessibility-example-com-mobile-2024-01-15T10-30-45.html''
       = Some ''<html>report</html>''
   \<and> exit_code (runLighthouseAudit example_env
                  [''node'', ''lighthouse-audit.js'', ''https://example.com'',
                   ''--platform=mobile=x''] Map.empty) = 0"
proof -
  let ?argv = "[''node'', ''lighthouse-audit.js'', ''https://example.com'',
                ''--platform=mobile=x'']"
  have casing: "toLowerCase ''mobile=x'' \<notin> {''desktop'', ''mobile''}"
    by (simp add: kelvin_sign_def toLowerChar_def upperCase_def lowerCase_def)
  have parse: "parseArgs ?argv = Inr (Some ''https://example.com'', ''mobile'')"
    by (simp add: parseArgs_def startsWith_def falsy_def index_js_def kelvin_sign_def
        toLowerChar_def upperCase_def lowerCase_def)
  have launched: "ChromeLaunch chromeFlags
      \<in> set (trace (runLighthouseAudit example_env ?argv Map.empty))"
    by (simp add: runLighthouseAudit_def parse falsy_def example_env_def example_result_def
        isValidUrl_def isValidPlatform_def kelvin_sign_def toLowerChar_def upperCase_def
        lowerCase_def tryBlock_def auditStage_def reportStage_def renderStage_def Let_def)
  have written: "files (runLighthouseAudit example_env ?argv Map.empty)
         ''/app/scripts/lighthouse-accessibility-example-com-mobile-2024-01-15T10-30-45.html''
       = Some ''<html>report</html>''"
    by (simp add: runLighthouseAudit_def parse falsy_def example_env_def example_result_def
        isValidUrl_def isValidPlatform_def kelvin_sign_def toLowerChar_def upperCase_def
        lowerCase_def tryBlock_def auditStage_def reportStage_def renderStage_def Let_def
        path_join_def baseFilename_def replace_non_alnum_def isAlnum_def digits_def
        getTimestamp_def replace_colon_period_def)
  have ended: "exit_code (runLighthouseAudit example_env ?argv Map.empty) = 0"
    by (simp add: runLighthouseAudit_def parse falsy_def example_env_def example_result_def
        isValidUrl_def isValidPlatform_def kelvin_sign_def toLowerChar_def upperCase_def
        lowerCase_def tryBlock_def auditStage_def reportStage_def renderStage_def Let_def)
  from casing parse launched written ended show ?thesis
    by (intro conjI)
qed

section \<open>Release of the browser\<close>

text \<open>
  C1. The browser is to be terminated on every exit path once it has been
  launched. In this run the launch succeeds and the audit returns no result: the
  error is caught, and the process exits with code 1 from the \<^verbatim>\<open>catch\<close> block, so
  that \<^verbatim>\<open>chrome.kill()\<close> of the \<^verbatim>\<open>finally\<close> block is never called. By
  \<open>kill_only_on_success\<close> the browser is killed in the runs that end with code 0
  and in no other.
\<close>

theorem browser_left_running:
  "launch (example_env\<lparr>lighthouse := (\<lambda>url opts. Inr None)\<rparr>) chromeFlags = Inr 9222
   \<and> ChromeLaunch chromeFlags
     \<in> set (trace (runLighthouseAudit (example_env\<lparr>lighthouse := (\<lambda>url opts. Inr None)\<rparr>)
          [''node'', ''lighthouse-audit.js'', ''https://example.com''] Map.empty))
   \<and> ChromeKill
     \<notin> set (trace (runLighthouseAudit (example_env\<lparr>lighthouse := (\<lambda>url opts. Inr None)\<rparr>)
          [''node'', ''lighthouse-audit.js'', ''https://example.com''] Map.empty))
   \<and> exit_code (runLighthouseAudit (example_env\<lparr>lighthouse := (\<lambda>url opts. Inr None)\<rparr>)
          [''node'', ''lighthouse-audit.js'', ''https://example.com''] Map.empty) = 1"
  by (simp add: runLighthouseAudit_def parseArgs_def startsWith_def falsy_def example_env_def
      isValidUrl_def isValidPlatform_def kelvin_sign_def toLowerChar_def upperCase_def
      lowerCase_def tryBlock_def auditStage_def)

section \<open>The path of the report\<close>

text \<open>
  C6. Whenever the run writes a file, its path is the directory of the script, then
  \<^verbatim>\<open>lighthouse-accessibility-\<close>, the host name of the URL with every character
  outside \<^verbatim>\<open>[a-zA-Z0-9]\<close> replaced by a hyphen, the platform, and the time of the
  clock to the second: for the ISO text \<^verbatim>\<open><date>T<hh>:<mm>:<ss>.<mmm>Z\<close> that is
  \<^verbatim>\<open><date>T<hh>-<mm>-<ss>\<close>; the extension is \<^verbatim>\<open>.html\<close>.
\<close>

theorem html_report_path:
  assumes "WriteFile p c \<in> set (trace (runLighthouseAudit e argv fs))"
    and "parseArgs argv = Inr (Some url, platform)"
    and "URL_hostname e url = Some h"
    and "toISOString e = d @ ''T'' @ hh @ '':'' @ mm @ '':'' @ ss @ ''.'' @ ms @ ''Z''"
    and "length ms = 3"
    and "\<forall>c \<in> set (d @ hh @ mm @ ss). c \<noteq> CHR '':'' \<and> c \<noteq> CHR ''.''"
  shows "p = dirname e @ ''/'' @ ''lighthouse-accessibility-''
             @ map (\<lambda>c. if c \<in> set (''abcdefghijklmnopqrstuvwxyz''
                                   @ ''ABCDEFGHIJKLMNOPQRSTUVWXYZ'' @ ''0123456789'')
                         then c else CHR ''-'') h
             @ ''-'' @ platform @ ''-''
             @ d @ ''T'' @ hh @ ''-'' @ mm @ ''-'' @ ss @ ''.html''"
proof -
  have ts: "getTimestamp (toISOString e) = d @ ''T'' @ hh @ ''-'' @ mm @ ''-'' @ ss"
    unfolding assms(4) using assms(5,6) by (rule getTimestamp_iso)
  obtain r t fs' where tb: "tryBlock e url platform fs = (r, t, fs')"
    by (cases "tryBlock e url platform fs") auto
  have "WriteFile p c \<in> set t"
    using assms(1)
    by (auto simp: runLighthouseAudit_def assms(2) usageExit_def Let_def tb
        split: if_splits option.splits)
  from tryBlock_write [OF tb this] assms(3)
  have "p = path_join (dirname e)
              (baseFilename (replace_non_alnum h) platform (getTimestamp (toISOString e))
               @ ''.html'')"
    by auto
  then show ?thesis
    unfolding ts path_join_def baseFilename_def replace_non_alnum_def isAlnum_def
      lowerCase_def upperCase_def digits_def
    by simp
qed

theorem html_report_path_witness:
  "WriteFile
     ''/app/scripts/lighthouse-accessibility-example-com-desktop-2024-01-15T10-30-45.html''
     ''<html>report</html>''
   \<in> set (trace (runLighthouseAudit example_env
               [''node'', ''lighthouse-audit.js'', ''https://example.com''] Map.empty))"
proof -
  let ?argv = "[''node'', ''lighthouse-audit.js'', ''https://example.com'']"
  have parse: "parseArgs ?argv = Inr (Some ''https://example.com'', ''desktop'')"
    by (simp add: parseArgs_def startsWith_def falsy_def)
  have host: "URL_hostname example_env ''https://example.com'' = Some ''example.com''"
    by (simp add: example_env_def)
  have clock: "toISOString example_env
      = ''2024-01-15'' @ ''T'' @ ''10'' @ '':'' @ ''30'' @ '':'' @ ''45'' @ ''.'' @ ''123'' @ ''Z''"
    by (simp add: example_env_def)
  have len: "length ''123'' = 3"
    by simp
  have clean: "\<forall>c \<in> set (''2024-01-15'' @ ''10'' @ ''30'' @ ''45''). c \<noteq> CHR '':'' \<and> c \<noteq> CHR ''.''"
    by simp
  let ?p = "path_join ''/app/scripts''
              (baseFilename (replace_non_alnum ''example.com'') ''desktop''
                 (getTimestamp ''2024-01-15T10:30:45.123Z'') @ ''.html'')"
  have mem: "WriteFile ?p ''<html>report</html>''
      \<in> set (trace (runLighthouseAudit example_env ?argv Map.empty))"
    by (simp add: runLighthouseAudit_def parse falsy_def example_env_def example_result_def
        isValidUrl_def isValidPlatform_def kelvin_sign_def toLowerChar_def upperCase_def
        lowerCase_def tryBlock_def auditStage_def reportStage_def renderStage_def Let_def)
  from html_report_path [OF mem parse host clock len clean]
  have "?p = ''/app/scripts/lighthouse-accessibility-example-com-desktop-2024-01-15T10-30-45.html''"
    by (simp add: example_env_def)
  with mem show ?thesis
    by simp
qed

section \<open>The order of the two files\<close>




section \<open>The rendering request\<close>



section \<open>Facts about doubles\<close>

lemma bitlen_nonneg: "0 \<le> bitlen n"
  by (induction n rule: bitlen.induct) (subst bitlen.simps, simp)

lemma bitlen_pos: "0 < n \<Longrightarrow> 1 \<le> bitlen n"
  using bitlen_nonneg [of "n div 2"] by (subst bitlen.simps) simp

lemma bitlen_bounds:
  "0 < n \<Longrightarrow> 2 ^ nat (bitlen n - 1) \<le> n \<and> n < 2 ^ nat (bitlen n)"
proof (induction n rule: bitlen.induct)
  case (1 n)
  show ?case
  proof (cases "n div 2 = 0")
    case True
    with 1 have "n = 1" by simp
    then show ?thesis by (simp add: bitlen.simps)
  next
    case False
    with 1 have pos: "0 < n div 2" by simp
    with 1 have ih: "2 ^ nat (bitlen (n div 2) - 1) \<le> n div 2" "n div 2 < 2 ^ nat (bitlen (n div 2))"
      by simp_all
    have b: "bitlen n = 1 + bitlen (n div 2)"
      using 1 by (subst bitlen.simps) simp
    have bp: "1 \<le> bitlen (n div 2)"
      using pos by (rule bitlen_pos)
    have e1: "nat (bitlen n - 1) = Suc (nat (bitlen (n div 2) - 1))"
      using b bp by simp
    have e2: "nat (bitlen n) = Suc (nat (bitlen (n div 2)))"
      using b bp by simp
    define lo :: int where "lo = 2 ^ nat (bitlen (n div 2) - 1)"
    define hi :: int where "hi = 2 ^ nat (bitlen (n div 2))"
    have "n = 2 * (n div 2) + n mod 2" "0 \<le> n mod 2" "n mod 2 < 2"
      by simp_all
    with ih have "2 * lo \<le> n \<and> n < 2 * hi"
      unfolding lo_def [symmetric] hi_def [symmetric] by linarith
    then show ?thesis
      unfolding e1 e2 lo_def hi_def by simp
  qed
qed

lemma floor_log2_le:
  assumes "0 < x"
  shows "2 powi floor_log2 x \<le> x"
proof -
  obtain a b where q: "quotient_of x = (a, b)"
    by (cases "quotient_of x") auto
  have b: "0 < b"
    using q by (rule quotient_of_denom_pos)
  have x: "x = of_int a / of_int b"
    using q by (rule quotient_of_div)
  have a: "0 < a"
    using assms b unfolding x by (simp add: zero_less_divide_iff)
  let ?d = "bitlen a - bitlen b"
  have "2 powi (?d - 1) \<le> x"
  proof -
    have la: "(2::rat) powi (bitlen a - 1) \<le> of_int a"
    proof -
      have "(2::int) ^ nat (bitlen a - 1) \<le> a"
        using bitlen_bounds [OF a] by simp
      then have "(of_int (2 ^ nat (bitlen a - 1)) :: rat) \<le> of_int a"
        by (simp only: of_int_le_iff)
      then show ?thesis
        using bitlen_pos [OF a] by (simp add: power_int_def)
    qed
    have lb: "of_int b \<le> (2::rat) powi bitlen b"
    proof -
      have "b \<le> (2::int) ^ nat (bitlen b)"
        using bitlen_bounds [OF b] by simp
      then have "(of_int b :: rat) \<le> of_int (2 ^ nat (bitlen b))"
        by (simp only: of_int_le_iff)
      then show ?thesis
        using bitlen_nonneg [of b] by (simp add: power_int_def)
    qed
    have "(2::rat) powi (?d - 1) = 2 powi (bitlen a - 1) / 2 powi bitlen b"
      by (simp add: power_int_diff)
    also have "\<dots> \<le> of_int a / 2 powi bitlen b"
      using la by (simp add: divide_right_mono)
    also have "\<dots> \<le> of_int a / of_int b"
      using lb a b by (simp add: divide_left_mono)
    finally show ?thesis
      unfolding x .
  qed
  then show ?thesis
    unfolding floor_log2_def Let_def q fst_conv snd_conv by simp
qed

lemma floor_log2_gt:
  assumes "0 < x"
  shows "x < 2 powi (floor_log2 x + 1)"
proof -
  obtain a b where q: "quotient_of x = (a, b)"
    by (cases "quotient_of x") auto
  have b: "0 < b"
    using q by (rule quotient_of_denom_pos)
  have x: "x = of_int a / of_int b"
    using q by (rule quotient_of_div)
  have a: "0 < a"
    using assms b unfolding x by (simp add: zero_less_divide_iff)
  let ?d = "bitlen a - bitlen b"
  have "x < 2 powi (?d + 1)"
  proof -
    have ua: "of_int a < (2::rat) powi bitlen a"
    proof -
      have "a < (2::int) ^ nat (bitlen a)"
        using bitlen_bounds [OF a] by simp
      then have "(of_int a :: rat) < of_int (2 ^ nat (bitlen a))"
        by (simp only: of_int_less_iff)
      then show ?thesis
        using bitlen_nonneg [of a] by (simp add: power_int_def)
    qed
    have lb: "(2::rat) powi (bitlen b - 1) \<le> of_int b"
    proof -
      have "(2::int) ^ nat (bitlen b - 1) \<le> b"
        using bitlen_bounds [OF b] by simp
      then have "(of_int (2 ^ nat (bitlen b - 1)) :: rat) \<le> of_int b"
        by (simp only: of_int_le_iff)
      then show ?thesis
        using bitlen_pos [OF b] by (simp add: power_int_def)
    qed
    have pos: "(0::rat) < 2 powi (bitlen b - 1)"
      by simp
    have bpos: "(0::rat) < of_int b" and apos: "(0::rat) \<le> of_int a"
      using a b by simp_all
    have "(of_int a :: rat) / of_int b \<le> of_int a / 2 powi (bitlen b - 1)"
      using lb apos by (rule divide_left_mono) (rule mult_pos_pos [OF bpos pos])
    also have "\<dots> < 2 powi bitlen a / 2 powi (bitlen b - 1)"
      using ua pos by (intro divide_strict_right_mono)
    also have "\<dots> = 2 powi (?d + 1)"
      by (simp add: power_int_diff power_int_add)
    finally show ?thesis
      unfolding x .
  qed
  then show ?thesis
    unfolding floor_log2_def Let_def q fst_conv snd_conv by (simp add: not_le)
qed

lemma round_half_even_error: "\<bar>of_int (round_half_even q) - q\<bar> \<le> 1 / 2"
proof -
  define f where "f = \<lfloor>q\<rfloor>"
  have bounds: "of_int f \<le> q" "q < of_int f + 1"
    unfolding f_def by linarith+
  consider "q - of_int f < 1 / 2" | "1 / 2 < q - of_int f" | "q - of_int f = 1 / 2"
    by linarith
  then show ?thesis
  proof cases
    case 1
    then have "round_half_even q = f"
      unfolding round_half_even_def Let_def f_def by simp
    with 1 bounds show ?thesis by simp
  next
    case 2
    then have "round_half_even q = f + 1"
      unfolding round_half_even_def Let_def f_def by simp
    with 2 bounds show ?thesis by simp
  next
    case 3
    then have "round_half_even q = f \<or> round_half_even q = f + 1"
      unfolding round_half_even_def Let_def f_def by simp
    with 3 show ?thesis by auto
  qed
qed

lemma round_double_error: "\<bar>round_double x - x\<bar> \<le> (\<bar>x\<bar> + 1) / 2 ^ 53"
proof (cases "x = 0")
  case True
  then show ?thesis by (simp add: round_double_def)
next
  case False
  define e where "e = floor_log2 \<bar>x\<bar>"
  define ulp :: rat where "ulp = 2 powi (max e (- 1022) - 52)"
  have ulp_pos: "0 < ulp"
    unfolding ulp_def by simp
  have rd: "round_double x = of_int (round_half_even (x / ulp)) * ulp"
    using False unfolding round_double_def Let_def ulp_def e_def by simp
  have "round_double x - x = (of_int (round_half_even (x / ulp)) - x / ulp) * ulp"
    unfolding rd using ulp_pos by (simp add: algebra_simps)
  then have "\<bar>round_double x - x\<bar> = \<bar>of_int (round_half_even (x / ulp)) - x / ulp\<bar> * ulp"
    using ulp_pos by (simp add: abs_mult)
  also have "\<dots> \<le> 1 / 2 * ulp"
    using round_half_even_error [of "x / ulp"] ulp_pos by (simp add: mult_right_mono)
  finally have half: "\<bar>round_double x - x\<bar> \<le> ulp / 2"
    by simp
  have "ulp \<le> (\<bar>x\<bar> + 1) / 2 ^ 52"
  proof (cases "- 1022 \<le> e")
    case True
    then have "ulp = 2 powi e / 2 ^ 52"
      unfolding ulp_def by (simp add: power_int_diff max_def)
    also have "\<dots> \<le> \<bar>x\<bar> / 2 ^ 52"
      using floor_log2_le [of "\<bar>x\<bar>"] False unfolding e_def
      by (simp add: divide_right_mono)
    also have "\<dots> \<le> (\<bar>x\<bar> + 1) / 2 ^ 52"
      by (simp add: divide_right_mono)
    finally show ?thesis .
  next
    case False
    then have "ulp = 2 powi (- 1074)"
      unfolding ulp_def by (simp add: max_def)
    also have "\<dots> \<le> (2::rat) powi (- 52)"
      by (rule power_int_increasing) simp_all
    also have "\<dots> = 1 / 2 ^ 52"
      by (simp add: power_int_def field_simps)
    also have "\<dots> \<le> (\<bar>x\<bar> + 1) / 2 ^ 52"
      by (simp add: divide_right_mono)
    finally show ?thesis .
  qed
  with half show ?thesis
    by simp
qed

lemma percent_of_hundredths:
  assumes "k \<le> 100"
  shows "Math_round (js_times (round_double (of_nat k / 100)) 100) = int k"
proof -
  define d where "d = round_double (of_nat k / 100)"
  define p where "p = round_double (d * 100)"
  have k: "(of_nat k :: rat) \<le> 100" "(0::rat) \<le> of_nat k"
    using assms by simp_all
  have "\<bar>d - of_nat k / 100\<bar> \<le> (\<bar>of_nat k / 100\<bar> + 1) / 2 ^ 53"
    unfolding d_def by (rule round_double_error)
  with k have d: "\<bar>d * 100 - of_nat k\<bar> \<le> 200 / 2 ^ 53"
    by (simp add: abs_if split: if_splits)
  have "\<bar>p - d * 100\<bar> \<le> (\<bar>d * 100\<bar> + 1) / 2 ^ 53"
    unfolding p_def by (rule round_double_error)
  with d k have "\<bar>p - of_nat k\<bar> < 1 / 2"
    by (simp add: abs_if split: if_splits)
  then have "of_int (int k) \<le> p + 1 / 2" "p + 1 / 2 < of_int (int k) + 1"
    by (simp_all add: abs_if split: if_splits)
  then have "\<lfloor>p + 1 / 2\<rfloor> = int k"
    by (simp only: floor_unique)
  then show ?thesis
    unfolding Math_round_def js_times_def p_def d_def .
qed

lemma round_double_one: "round_double 1 = 1"
  by code_simp

lemma below_one_of_hundredths:
  assumes "j \<le> 100"
  shows "round_double (of_nat j / 100) < 1 \<longleftrightarrow> (of_nat j / 100 :: rat) < 1"
proof (cases "j = 100")
  case True
  then show ?thesis by (simp add: round_double_one)
next
  case False
  with assms have "j \<le> 99" by simp
  then have j: "(of_nat j :: rat) \<le> 99" "(0::rat) \<le> of_nat j"
    by (simp_all add: of_nat_le_iff [where ?'a = rat and n = 99, simplified])
  have "\<bar>round_double (of_nat j / 100) - of_nat j / 100\<bar> \<le> (\<bar>of_nat j / 100\<bar> + 1) / 2 ^ 53"
    by (rule round_double_error)
  with j show ?thesis
    by (simp add: abs_if split: if_splits)
qed

text \<open>
  Two products that fall on the other side of a half than the exact ones: the
  double for 0.145 lies below it and gives 14, and the double for 0.015 gives a
  product of exactly 1.5 and so 2.
\<close>

lemma rounded_products:
  "Math_round (js_times (toNumber (Some (145 / 1000))) 100) = 14"
  "Math_round (js_times (toNumber (Some (15 / 1000))) 100) = 2"
  by code_simp+

section \<open>The summary\<close>

lemma percent_of_score:
  assumes "score = None \<or> (\<exists>k\<le>100. score = Some (of_nat k / 100))"
  shows "Math_round (js_times (toNumber score) 100)
           = round ((case score of None \<Rightarrow> 0 | Some s \<Rightarrow> s) * 100)"
  using assms
proof
  assume "score = None"
  then show ?thesis
    by (simp add: toNumber_def js_times_def round_double_def Math_round_def floor_eq_iff)
next
  assume "\<exists>k\<le>100. score = Some (of_nat k / 100)"
  then obtain k :: nat where k: "k \<le> 100" and score: "score = Some (of_nat k / 100)"
    by blast
  have "Math_round (js_times (toNumber score) 100) = int k"
    unfolding score toNumber_def option.case using k by (rule percent_of_hundredths)
  moreover have "round ((of_nat k / 100 :: rat) * 100) = int k"
    by simp
  ultimately show ?thesis
    unfolding score by simp
qed

lemma failed_audit_test:
  assumes "snd a = None \<or> (\<exists>j\<le>100. snd a = Some (of_nat j / 100))"
  shows "(case snd a of None \<Rightarrow> False | Some s \<Rightarrow> round_double s < 1)
           \<longleftrightarrow> (\<exists>s. snd a = Some s \<and> s < 1)"
  using assms
proof
  assume "snd a = None"
  then show ?thesis by simp
next
  assume "\<exists>j\<le>100. snd a = Some (of_nat j / 100)"
  then obtain j :: nat where j: "j \<le> 100" and a: "snd a = Some (of_nat j / 100)"
    by blast
  define x :: rat where "x = of_nat j / 100"
  have a': "snd a = Some x"
    unfolding x_def by (rule a)
  have "(\<exists>s. snd a = Some s \<and> s < 1) \<longleftrightarrow> x < 1"
    unfolding a' by auto
  moreover have "(case snd a of None \<Rightarrow> False | Some s \<Rightarrow> round_double s < 1)
      \<longleftrightarrow> round_double x < 1"
    unfolding a' by simp
  moreover have "round_double x < 1 \<longleftrightarrow> x < 1"
    unfolding x_def using j by (rule below_one_of_hundredths)
  ultimately show ?thesis
    by blast
qed

lemma auditSummary_lines:
  assumes "accessibility_score l = None
           \<or> (\<exists>k\<le>100. accessibility_score l = Some (of_nat k / 100))"
    and "\<forall>a \<in> set (audits l). snd a = None \<or> (\<exists>j\<le>100. snd a = Some (of_nat j / 100))"
  shows "auditSummary url platform l =
     [ConsoleLog (newline @ bar_chart @ '' Audit Summary:''),
      ConsoleLog (''   URL: '' @ url),
      ConsoleLog (''   Platform: '' @ platform),
      ConsoleLog (''   Accessibility Score: ''
         @ show_int (round ((case accessibility_score l of None \<Rightarrow> 0 | Some s \<Rightarrow> s) * 100))
         @ ''/100''),
      ConsoleLog (''   Total Audits: '' @ show_nat (length (audits l)))]
     @ (if 0 < length (filter (\<lambda>a. \<exists>s. snd a = Some s \<and> s < 1) (audits l))
        then [ConsoleLog (''   Failed Audits: ''
                @ show_nat (length (filter (\<lambda>a. \<exists>s. snd a = Some s \<and> s < 1) (audits l))))]
        else [])
     @ [ConsoleLog (newline @ check_mark @ '' Audit completed successfully!'')]"
proof -
  have "filter (\<lambda>a. case snd a of None \<Rightarrow> False | Some s \<Rightarrow> round_double s < 1) (audits l)
          = filter (\<lambda>a. \<exists>s. snd a = Some s \<and> s < 1) (audits l)"
    using assms(2) by (intro filter_cong refl failed_audit_test) blast
  then show ?thesis
    unfolding auditSummary_def Let_def percent_of_score [OF assms(1)] by simp
qed

text \<open>
  C8. Take a run that ends with exit code 0, and let the scores of the result that
  the audit returned be \<^verbatim>\<open>null\<close> or whole hundredths from 0 to 1, which is what the
  audit engine gives. The run has printed, last of all before the browser is
  killed: the heading, the URL, the platform, the accessibility score as
  \<open>round (score * 100)\<close> out of 100 (a \<^verbatim>\<open>null\<close> score counting as 0), the number of
  audits, the number of audits with a score that is not \<^verbatim>\<open>null\<close> and below 1, this
  line only when the number is positive, and the closing line. For other scores
  the product of the script is the double nearest to \<open>score * 100\<close>, which can lie
  on the other side of a half.
\<close>

theorem summary_printed:
  assumes "exit_code (runLighthouseAudit e argv fs) = 0"
    and "parseArgs argv = Inr (Some url, platform)"
    and "launch e chromeFlags = Inr cport"
    and "lighthouse e url (lighthouseOptions cport platform) = Inr (Some rr)"
    and "accessibility_score (lhr rr) = None
         \<or> (\<exists>k\<le>100. accessibility_score (lhr rr) = Some (of_nat k / 100))"
    and "\<forall>a \<in> set (audits (lhr rr)).
           snd a = None \<or> (\<exists>j\<le>100. snd a = Some (of_nat j / 100))"
  shows "\<exists>pre.
      trace (runLighthouseAudit e argv fs) =
          pre
          @ [ConsoleLog (newline @ bar_chart @ '' Audit Summary:''),
             ConsoleLog (''   URL: '' @ url),
             ConsoleLog (''   Platform: '' @ platform),
             ConsoleLog (''   Accessibility Score: ''
                @ show_int (round ((case accessibility_score (lhr rr) of
                                      None \<Rightarrow> 0 | Some s \<Rightarrow> s) * 100))
                @ ''/100''),
             ConsoleLog (''   Total Audits: '' @ show_nat (length (audits (lhr rr))))]
          @ (if 0 < length (filter (\<lambda>a. \<exists>s. snd a = Some s \<and> s < 1) (audits (lhr rr)))
             then [ConsoleLog (''   Failed Audits: ''
                     @ show_nat (length (filter (\<lambda>a. \<exists>s. snd a = Some s \<and> s < 1)
                                           (audits (lhr rr)))))]
             else [])
          @ [ConsoleLog (newline @ check_mark @ '' Audit completed successfully!''),
             ChromeKill]"
proof -
  from run_success_origin [OF assms(1)]
  obtain req where "NodeHtmlToImage req \<in> set (trace (runLighthouseAudit e argv fs))"
    by blast
  then show ?thesis
  proof (cases rule: run_render)
    case (rendering url' platform' h cport' rr' base)
    from rendering(1,4,5) assms(2-4) have same: "url' = url" "platform' = platform" "rr' = rr"
      by simp_all
    from assms(1) obtain jpeg where rendered: "nodeHtmlToImage e req = Inr jpeg"
      unfolding rendering(11) by (cases "nodeHtmlToImage e req") auto
    have "\<exists>pre. trace (runLighthouseAudit e argv fs)
                  = pre @ auditSummary url platform (lhr rr) @ [ChromeKill]"
      unfolding rendering(9) rendered same sum.case append_Cons append_Nil
      by (intro ends_with_Cons ends_with_refl)
    then show ?thesis
      unfolding auditSummary_lines [OF assms(5,6)] by simp
  qed
qed

theorem summary_printed_witness:
  "exit_code (runLighthouseAudit example_env
       [''node'', ''lighthouse-audit.js'', ''https://example.com''] Map.empty) = 0
   \<and> ConsoleLog ''   Accessibility Score: 95/100''
       \<in> set (trace (runLighthouseAudit example_env
                  [''node'', ''lighthouse-audit.js'', ''https://example.com''] Map.empty))
   \<and> ConsoleLog ''   Total Audits: 3''
       \<in> set (trace (runLighthouseAudit example_env
                  [''node'', ''lighthouse-audit.js'', ''https://example.com''] Map.empty))
   \<and> ConsoleLog ''   Failed Audits: 1''
       \<in> set (trace (runLighthouseAudit example_env
                  [''node'', ''lighthouse-audit.js'', ''https://example.com''] Map.empty))"
proof -
  let ?argv = "[''node'', ''lighthouse-audit.js'', ''https://example.com'']"
  have parse: "parseArgs ?argv = Inr (Some ''https://example.com'', ''desktop'')"
    by (simp add: parseArgs_def startsWith_def falsy_def)
  have ok: "exit_code (runLighthouseAudit example_env ?argv Map.empty) = 0"
    by (simp add: runLighthouseAudit_def parse falsy_def example_env_def example_result_def
        isValidUrl_def isValidPlatform_def kelvin_sign_def toLowerChar_def upperCase_def
        lowerCase_def tryBlock_def auditStage_def reportStage_def renderStage_def Let_def)
  have launched: "launch example_env chromeFlags = Inr 9222"
    by (simp add: example_env_def)
  have audited: "lighthouse example_env ''https://example.com''
                   (lighthouseOptions 9222 ''desktop'') = Inr (Some example_result)"
    by (simp add: example_env_def)
  have "accessibility_score (lhr example_result) = Some (of_nat 95 / 100)"
    by (simp add: example_result_def)
  then have score: "accessibility_score (lhr example_result) = None
      \<or> (\<exists>k\<le>100. accessibility_score (lhr example_result) = Some (of_nat k / 100))"
    by (intro disjI2 exI [of _ 95]) simp
  have "snd a = None \<or> (\<exists>j\<le>100. snd a = Some (of_nat j / 100))"
    if "a \<in> set (audits (lhr example_result))" for a
  proof -
    from that consider "snd a = Some (of_nat 0 / 100)" | "snd a = Some (of_nat 100 / 100)"
      | "snd a = None"
      by (auto simp: example_result_def)
    then show ?thesis
      by cases (blast intro: le0 order_refl)+
  qed
  then have scores: "\<forall>a \<in> set (audits (lhr example_result)).
      snd a = None \<or> (\<exists>j\<le>100. snd a = Some (of_nat j / 100))"
    by blast
  from summary_printed [OF ok parse launched audited score scores]
  obtain pre where lines: "trace (runLighthouseAudit example_env ?argv Map.empty) =
          pre
          @ [ConsoleLog (newline @ bar_chart @ '' Audit Summary:''),
             ConsoleLog (''   URL: '' @ ''https://example.com''),
             ConsoleLog (''   Platform: '' @ ''desktop''),
             ConsoleLog (''   Accessibility Score: ''
                @ show_int (round ((case accessibility_score (lhr example_result) of
                                      None \<Rightarrow> 0 | Some s \<Rightarrow> s) * 100))
                @ ''/100''),
             ConsoleLog (''   Total Audits: '' @ show_nat (length (audits (lhr example_result))))]
          @ (if 0 < length (filter (\<lambda>a. \<exists>s. snd a = Some s \<and> s < 1)
                              (audits (lhr example_result)))
             then [ConsoleLog (''   Failed Audits: ''
                     @ show_nat (length (filter (\<lambda>a. \<exists>s. snd a = Some s \<and> s < 1)
                                           (audits (lhr example_result)))))]
             else [])
          @ [ConsoleLog (newline @ check_mark @ '' Audit completed successfully!''),
             ChromeKill]"
    by blast
  show ?thesis
    using ok unfolding lines
    by (simp add: example_result_def show_int_def digits_def)
qed

text \<open>
  C10. When the audit returns a \<^verbatim>\<open>null\<close> accessibility score and the image has been
  rendered, the run completes with exit code 0 and prints the score line with 0.
\<close>

theorem null_score_prints_zero:
  assumes "parseArgs argv = Inr (Some url, platform)"
    and "launch e chromeFlags = Inr cport"
    and "lighthouse e url (lighthouseOptions cport platform) = Inr (Some rr)"
    and "accessibility_score (lhr rr) = None"
    and "NodeHtmlToImage req \<in> set (trace (runLighthouseAudit e argv fs))"
    and "nodeHtmlToImage e req = Inr jpeg"
  shows "exit_code (runLighthouseAudit e argv fs) = 0
     \<and> ConsoleLog ''   Accessibility Score: 0/100''
         \<in> set (trace (runLighthouseAudit e argv fs))"
  using assms(5)
proof (cases rule: run_render)
  case (rendering url' platform' h cport' rr' base)
  from rendering(1,4,5) assms(1-3) have same: "url' = url" "platform' = platform" "rr' = rr"
    by simp_all
  have "ConsoleLog ''   Accessibility Score: 0/100'' \<in> set (auditSummary url platform (lhr rr))"
    by (simp add: auditSummary_def Let_def assms(4) toNumber_def js_times_def round_double_def
        Math_round_def show_int_def digits_def)
  then show ?thesis
    unfolding rendering(9,11) same by (simp add: assms(6))
qed

theorem null_score_prints_zero_witness:
  "exit_code (runLighthouseAudit
       (example_env\<lparr>lighthouse := (\<lambda>url opts. Inr (Some
          \<lparr> report = ''<html>report</html>'',
            lhr = \<lparr> accessibility_score = None, audits = [] \<rparr> \<rparr>))\<rparr>)
       [''node'', ''lighthouse-audit.js'', ''https://example.com''] Map.empty) = 0
   \<and> ConsoleLog ''   Accessibility Score: 0/100''
       \<in> set (trace (runLighthouseAudit
          (example_env\<lparr>lighthouse := (\<lambda>url opts. Inr (Some
             \<lparr> report = ''<html>report</html>'',
               lhr = \<lparr> accessibility_score = None, audits = [] \<rparr> \<rparr>))\<rparr>)
          [''node'', ''lighthouse-audit.js'', ''https://example.com''] Map.empty))"
proof -
  let ?rr = "\<lparr> report = ''<html>report</html>'',
               lhr = \<lparr> accessibility_score = None, audits = [] \<rparr> \<rparr>"
  let ?e = "example_env\<lparr>lighthouse := (\<lambda>url opts. Inr (Some ?rr))\<rparr>"
  let ?argv = "[''node'', ''lighthouse-audit.js'', ''https://example.com'']"
  let ?req = "imageOptions
      (path_join ''/app/scripts''
         (baseFilename (replace_non_alnum ''example.com'') ''desktop''
            (getTimestamp ''2024-01-15T10:30:45.123Z'') @ ''.jpg''))
      ''<html>report</html>'' (viewportConfig ''desktop'')"
  have parse: "parseArgs ?argv = Inr (Some ''https://example.com'', ''desktop'')"
    by (simp add: parseArgs_def startsWith_def falsy_def)
  have launched: "launch ?e chromeFlags = Inr 9222"
    by (simp add: example_env_def)
  have audited: "lighthouse ?e ''https://example.com'' (lighthouseOptions 9222 ''desktop'')
      = Inr (Some ?rr)"
    by simp
  have null: "accessibility_score (lhr ?rr) = None"
    by simp
  have mem: "NodeHtmlToImage ?req \<in> set (trace (runLighthouseAudit ?e ?argv Map.empty))"
    by (simp add: runLighthouseAudit_def parse falsy_def example_env_def
        isValidUrl_def isValidPlatform_def kelvin_sign_def toLowerChar_def upperCase_def
        lowerCase_def tryBlock_def auditStage_def reportStage_def renderStage_def Let_def)
  have rendered: "nodeHtmlToImage ?e ?req = Inr ''JPEG''"
    by (simp add: example_env_def)
  show ?thesis
    by (rule null_score_prints_zero [OF parse launched audited null mem rendered])
qed

end
